theory Spec2Isabelle
  imports Main
begin

section \<open>Marjapussi: cards, legal plays, trick resolution, standing cards\<close>

text \<open>
  A shallow embedding of \<^verbatim>\<open>marjapussi/card.py\<close>, of the functions of
  \<^verbatim>\<open>marjapussi/utils.py\<close> that decide which cards may be played and which
  card takes a trick, and of \<^verbatim>\<open>Agent._standing_cards\<close> in
  \<^verbatim>\<open>marjapussi/agent.py\<close>.

  Python exceptions are values: every function that can raise returns
  \<open>exn + 'a\<close>, with \<open>Inl\<close> for the exception.
\<close>

subsection \<open>Exceptions\<close>

datatype exn = ValueError | TypeError | AttributeError | NameError

subsection \<open>Names that the code reads and never binds\<close>

text \<open>
  \<^verbatim>\<open>card.py\<close> has no import and no assignment at module level, and its methods
  read the global names \<^verbatim>\<open>COLORS\<close> and \<^verbatim>\<open>VALUES\<close>: in
  \<^verbatim>\<open>__init__\<close> and in \<^verbatim>\<open>is_higher_than\<close>. The lists of these names in
  \<^verbatim>\<open>utils.py\<close> are globals of that other module, so in \<^verbatim>\<open>card.py\<close> both
  names are unbound and reading one raises \<^verbatim>\<open>NameError\<close>. The key of
  \<^verbatim>\<open>high_card\<close> reads the attribute \<^verbatim>\<open>card.VALUES\<close>; the class
  \<^verbatim>\<open>Card\<close> has the class attribute \<^verbatim>\<open>COLOR_NAMES\<close> and the instance
  attributes \<^verbatim>\<open>color\<close> and \<^verbatim>\<open>value\<close> and no other, so reading it raises
  \<^verbatim>\<open>AttributeError\<close>.

  What each of the three names is bound to is a field of \<open>names\<close>, \<open>None\<close> for
  an unbound name. \<open>shipped\<close> is the repository as it stands. \<open>bound_to_utils\<close>
  is the repository with each name bound to the list of \<^verbatim>\<open>utils.py\<close>; it serves
  to say what the functions compute beyond the failed lookup.
\<close>

record names =
  card_py_COLORS :: "string list option"
  card_py_VALUES :: "string list option"
  Card_VALUES :: "string list option"

definition global_name :: "'a option \<Rightarrow> exn + 'a" where
  "global_name b = (case b of None \<Rightarrow> Inl NameError | Some v \<Rightarrow> Inr v)"

definition attribute :: "'a option \<Rightarrow> exn + 'a" where
  "attribute b = (case b of None \<Rightarrow> Inl AttributeError | Some v \<Rightarrow> Inr v)"

definition shipped :: names where
  "shipped = \<lparr>card_py_COLORS = None, card_py_VALUES = None, Card_VALUES = None\<rparr>"

text \<open>
  \<^verbatim>\<open>COLORS = ["r", "s", "e", "g"]\<close> and
  \<^verbatim>\<open>VALUES = ["A", "Z", "K", "O", "U", "9", "8", "7", "6"]\<close> of \<^verbatim>\<open>utils.py\<close>.
\<close>

definition COLORS :: "string list" where
  "COLORS = [''r'', ''s'', ''e'', ''g'']"

definition VALUES :: "string list" where
  "VALUES = [''A'', ''Z'', ''K'', ''O'', ''U'', ''9'', ''8'', ''7'', ''6'']"

definition bound_to_utils :: names where
  "bound_to_utils =
     \<lparr>card_py_COLORS = Some COLORS, card_py_VALUES = Some VALUES, Card_VALUES = Some VALUES\<rparr>"

subsection \<open>card.py: the class Card\<close>

text \<open>
  A card has the two attributes \<^verbatim>\<open>color\<close> and \<^verbatim>\<open>value\<close>, both Python
  strings. \<^verbatim>\<open>__eq__\<close> compares exactly these two attributes, so equality of
  records is equality of cards.
\<close>

record card =
  color :: string
  "value" :: string

text \<open>
  \<^verbatim>\<open>Card.__init__\<close>: \<^verbatim>\<open>if color not in COLORS\<close> reads \<^verbatim>\<open>COLORS\<close> and
  checks the color, then \<^verbatim>\<open>if value not in VALUES\<close> reads \<^verbatim>\<open>VALUES\<close> and
  checks the value; each failed check raises \<^verbatim>\<open>ValueError\<close>.
\<close>

definition Card :: "names \<Rightarrow> string \<Rightarrow> string \<Rightarrow> exn + card" where
  "Card ns c v =
     (case global_name (card_py_COLORS ns) of
        Inl e \<Rightarrow> Inl e
      | Inr colors \<Rightarrow>
          if c \<notin> set colors then Inl ValueError
          else (case global_name (card_py_VALUES ns) of
                  Inl e \<Rightarrow> Inl e
                | Inr vals \<Rightarrow>
                    if v \<notin> set vals then Inl ValueError
                    else Inr \<lparr>color = c, value = v\<rparr>))"

text \<open>The cards of the four colors and nine values of \<^verbatim>\<open>utils.py\<close>.\<close>

definition valid_card :: "card \<Rightarrow> bool" where
  "valid_card k \<longleftrightarrow> color k \<in> set COLORS \<and> value k \<in> set VALUES"

text \<open>\<^verbatim>\<open>list.index\<close>: the first position of an element, \<^verbatim>\<open>ValueError\<close> when absent.\<close>

fun index :: "'a list \<Rightarrow> 'a \<Rightarrow> exn + nat" where
  "index [] x = Inl ValueError"
| "index (y # ys) x =
     (if y = x then Inr 0
      else (case index ys x of Inl e \<Rightarrow> Inl e | Inr n \<Rightarrow> Inr (Suc n)))"

text \<open>
  \<^verbatim>\<open>is_higher_than\<close>:
  \<^verbatim>\<open>VALUES.index(self.value) > VALUES.index(other.value)\<close>, the left operand first;
  each operand reads the global \<^verbatim>\<open>VALUES\<close> of \<^verbatim>\<open>card.py\<close>.
\<close>

definition is_higher_than :: "names \<Rightarrow> card \<Rightarrow> card \<Rightarrow> exn + bool" where
  "is_higher_than ns self other =
     (case global_name (card_py_VALUES ns) of
        Inl e \<Rightarrow> Inl e
      | Inr vals \<Rightarrow>
          (case index vals (value self) of
             Inl e \<Rightarrow> Inl e
           | Inr i \<Rightarrow>
               (case global_name (card_py_VALUES ns) of
                  Inl e \<Rightarrow> Inl e
                | Inr vals' \<Rightarrow>
                    (case index vals' (value other) of
                       Inl e \<Rightarrow> Inl e
                     | Inr j \<Rightarrow> Inr (i > j)))))"

text \<open>
  The position of a rank in the sequence A, Z, K, O, U, 9, 8, 7, 6 as the specification
  writes it, from the weakest rank to the strongest: a table of its own, to compare the
  code with.
\<close>

definition spec_rank_position :: "string \<Rightarrow> nat" where
  "spec_rank_position v =
     (if v = ''A'' then 0 else if v = ''Z'' then 1 else if v = ''K'' then 2
      else if v = ''O'' then 3 else if v = ''U'' then 4 else if v = ''9'' then 5
      else if v = ''8'' then 6 else if v = ''7'' then 7 else 8)"

subsection \<open>utils.py: the deck and the first lead\<close>

text \<open>A list comprehension whose element expression can raise: the first exception ends it.\<close>

fun sequence_exn :: "(exn + 'a) list \<Rightarrow> exn + 'a list" where
  "sequence_exn [] = Inr []"
| "sequence_exn (r # rs) =
     (case r of
        Inl e \<Rightarrow> Inl e
      | Inr x \<Rightarrow> (case sequence_exn rs of Inl e \<Rightarrow> Inl e | Inr xs \<Rightarrow> Inr (x # xs)))"

text \<open>
  \<^verbatim>\<open>CARDS = [Card(c, v) for c in COLORS for v in VALUES]\<close>: the colors in the outer
  loop, the values in the inner one, over the lists of \<^verbatim>\<open>utils.py\<close>; each element
  is a call of the constructor.
\<close>

definition CARDS :: "names \<Rightarrow> exn + card list" where
  "CARDS ns = sequence_exn (concat (map (\<lambda>c. map (\<lambda>v. Card ns c v) VALUES) COLORS))"

text \<open>\<^verbatim>\<open>allowed_first\<close>: the aces, else the green cards, else a copy of the hand.\<close>

definition allowed_first :: "card list \<Rightarrow> card list" where
  "allowed_first cards =
     (let allowed = [c \<leftarrow> cards. value c = ''A''];
          allowed = (if allowed = [] then [c \<leftarrow> cards. color c = ''g''] else allowed);
          allowed = (if allowed = [] then cards else allowed)
      in allowed)"

subsection \<open>utils.py: high\_card\<close>

text \<open>
  Python's \<^verbatim>\<open>max(xs, default=d)\<close> with no key, on a list of \<^verbatim>\<open>Card\<close> objects.
  An empty list gives the default and a list of one element gives that element, with no
  comparison. From the second element on, \<^verbatim>\<open>max\<close> compares two elements with
  \<^verbatim>\<open>>\<close>; the class \<^verbatim>\<open>Card\<close> defines \<^verbatim>\<open>__eq__\<close> and \<^verbatim>\<open>__hash__\<close>
  and no ordering method, so the comparison raises \<^verbatim>\<open>TypeError\<close>.
\<close>

fun max_no_key :: "card list \<Rightarrow> card option \<Rightarrow> exn + card option" where
  "max_no_key [] d = Inr d"
| "max_no_key [x] d = Inr (Some x)"
| "max_no_key (x # y # ys) d = Inl TypeError"

text \<open>
  Python's \<^verbatim>\<open>max(xs, default=d, key=f)\<close>: the key of every element is computed in
  turn, also when there is one element only, and an element replaces the running
  maximum only when its key is strictly greater, so the first of several maximal
  elements is returned. An exception of the key ends the call.
\<close>

fun max_key_loop :: "(card \<Rightarrow> exn + nat) \<Rightarrow> card \<Rightarrow> nat \<Rightarrow> card list \<Rightarrow> exn + card" where
  "max_key_loop key best kb [] = Inr best"
| "max_key_loop key best kb (x # xs) =
     (case key x of
        Inl e \<Rightarrow> Inl e
      | Inr kx \<Rightarrow>
          if kx > kb then max_key_loop key x kx xs else max_key_loop key best kb xs)"

definition max_key :: "card list \<Rightarrow> card option \<Rightarrow> (card \<Rightarrow> exn + nat) \<Rightarrow> exn + card option" where
  "max_key xs d key =
     (case xs of
        [] \<Rightarrow> Inr d
      | x # rest \<Rightarrow>
          (case key x of
             Inl e \<Rightarrow> Inl e
           | Inr kx \<Rightarrow>
               (case max_key_loop key x kx rest of
                  Inl e \<Rightarrow> Inl e
                | Inr m \<Rightarrow> Inr (Some m))))"

text \<open>
  The key of \<^verbatim>\<open>high_card\<close>:
  \<^verbatim>\<open>lambda card: card.VALUES.index(card.value)\<close>. It reads the attribute
  \<^verbatim>\<open>VALUES\<close> of the card first.
\<close>

definition high_card_key :: "names \<Rightarrow> card \<Rightarrow> exn + nat" where
  "high_card_key ns k =
     (case attribute (Card_VALUES ns) of
        Inl e \<Rightarrow> Inl e
      | Inr vals \<Rightarrow> index vals (value k))"

text \<open>
  \<^verbatim>\<open>high_card(cards, trump)\<close>. The trump is a Python string or \<^verbatim>\<open>None\<close>
  (\<open>string option\<close>); \<^verbatim>\<open>card.color == trump\<close> is \<open>Some (color card) = trump\<close>.
  The last line is
  \<^verbatim>\<open>max(trump_cards, default=max(base_col_cards, default=None), key=...)\<close>:
  the inner \<^verbatim>\<open>max\<close>, which has no key, is an argument of the outer one and is
  evaluated before it, whether or not there is a trump card.
\<close>

definition high_card :: "names \<Rightarrow> card list \<Rightarrow> string option \<Rightarrow> exn + card option" where
  "high_card ns cards trump =
     (case cards of
        [] \<Rightarrow> Inr None
      | c0 # _ \<Rightarrow>
          (let col = color c0;
               base_col_cards = [card \<leftarrow> cards. color card = col];
               trump_cards = [card \<leftarrow> cards. Some (color card) = trump]
           in case max_no_key base_col_cards None of
                Inl e \<Rightarrow> Inl e
              | Inr dflt \<Rightarrow> max_key trump_cards dflt (high_card_key ns)))"

subsection \<open>utils.py: allowed\_general\<close>

text \<open>
  \<^verbatim>\<open>high in allowed\<close> compares \<^verbatim>\<open>high\<close> with the elements of the list by
  \<^verbatim>\<open>Card.__eq__\<close>. For \<^verbatim>\<open>high = None\<close> and a non-empty list, \<^verbatim>\<open>__eq__\<close>
  reads \<^verbatim>\<open>None.color\<close> and raises \<^verbatim>\<open>AttributeError\<close>.
\<close>

definition allowed_general ::
  "names \<Rightarrow> card list \<Rightarrow> card list \<Rightarrow> string option \<Rightarrow> bool \<Rightarrow> exn + card list" where
  "allowed_general ns trick cards trump first =
     (if length trick = 0 \<and> first then Inr (allowed_first cards)
      else case trick of
        [] \<Rightarrow> Inr cards
      | t0 # _ \<Rightarrow>
          (let trick_col = color t0;
               ace = (if first
                      then find (\<lambda>card. color card = trick_col \<and> value card = ''A'') cards
                      else None)
           in case ace of
                Some a \<Rightarrow> Inr [a]
              | None \<Rightarrow>
                  (let allowed = [card \<leftarrow> cards. color card = trick_col];
                       allowed = (if allowed = []
                                  then [card \<leftarrow> cards. Some (color card) = trump]
                                  else allowed)
                   in case high_card ns (trick @ allowed) trump of
                        Inl e \<Rightarrow> Inl e
                      | Inr None \<Rightarrow>
                          if allowed = [] then Inr cards else Inl AttributeError
                      | Inr (Some high) \<Rightarrow>
                          (let allowed = (if high \<in> set allowed then [high] else allowed)
                           in Inr (if allowed \<noteq> [] then allowed else cards)))))"

subsection \<open>utils.py: higher\_cards\<close>

text \<open>A list comprehension whose condition can raise: the first exception ends it.\<close>

fun filter_exn :: "('a \<Rightarrow> exn + bool) \<Rightarrow> 'a list \<Rightarrow> exn + 'a list" where
  "filter_exn p [] = Inr []"
| "filter_exn p (x # xs) =
     (case p x of
        Inl e \<Rightarrow> Inl e
      | Inr b \<Rightarrow>
          (case filter_exn p xs of
             Inl e \<Rightarrow> Inl e
           | Inr ys \<Rightarrow> Inr (if b then x # ys else ys)))"

text \<open>
  \<^verbatim>\<open>higher_cards(base, trump, pool)\<close>: \<^verbatim>\<open>pool=None\<close> stands for the deck
  \<^verbatim>\<open>CARDS\<close>; \<^verbatim>\<open>not trump\<close> holds for \<^verbatim>\<open>None\<close> and for the empty string.
  In both comprehensions \<^verbatim>\<open>card.is_higher_than(base)\<close> is evaluated first for every
  card.
\<close>

definition higher_cards ::
  "names \<Rightarrow> card \<Rightarrow> string option \<Rightarrow> card list option \<Rightarrow> exn + card list" where
  "higher_cards ns base trump pool =
     (case (case pool of None \<Rightarrow> CARDS ns | Some p \<Rightarrow> Inr p) of
        Inl e \<Rightarrow> Inl e
      | Inr pool \<Rightarrow>
          if trump = None \<or> trump = Some []
          then filter_exn (\<lambda>card.
                 case is_higher_than ns card base of
                   Inl e \<Rightarrow> Inl e
                 | Inr h \<Rightarrow> Inr (h \<and> color base = color card)) pool
          else filter_exn (\<lambda>card.
                 case is_higher_than ns card base of
                   Inl e \<Rightarrow> Inl e
                 | Inr h \<Rightarrow> Inr ((h \<and> color base = color card) \<or> Some (color card) = trump)) pool)"

subsection \<open>agent.py: Agent.\_standing\_cards\<close>

text \<open>
  \<^verbatim>\<open>_standing_cards\<close> reads the attributes \<^verbatim>\<open>suit\<close> and \<^verbatim>\<open>rank\<close> of its
  cards and compares ranks with \<^verbatim>\<open>>\<close> and \<^verbatim>\<open>>=\<close>. The card class with
  these attributes is not among the source files, so the suits are any type \<open>'s\<close> and
  the ranks any linearly ordered type \<open>'r\<close>.
\<close>

record ('s, 'r) agent_card =
  suit :: 's
  rank :: 'r

text \<open>
  \<^verbatim>\<open>max(xs, key=lambda card: card.rank)\<close> on a non-empty list, given as its first
  element and the rest: the first card of the highest rank.
\<close>

fun max_rank_loop :: "('s, 'r::linorder) agent_card \<Rightarrow> ('s, 'r) agent_card list \<Rightarrow> ('s, 'r) agent_card" where
  "max_rank_loop best [] = best"
| "max_rank_loop best (x # xs) =
     (if rank x > rank best then max_rank_loop x xs else max_rank_loop best xs)"

text \<open>
  \<^verbatim>\<open>sorted(xs, key=lambda card: card.rank, reverse=True)\<close>: descending, and cards of
  equal rank keep the order they had in \<open>xs\<close>.
\<close>

definition sorted_rank_reverse :: "('s, 'r::linorder) agent_card list \<Rightarrow> ('s, 'r) agent_card list" where
  "sorted_rank_reverse xs = rev (sort_key rank (rev xs))"

text \<open>\<^verbatim>\<open>dict.get(key, default)\<close>.\<close>

definition dict_get :: "('k \<rightharpoonup> 'v) \<Rightarrow> 'k \<Rightarrow> 'v \<Rightarrow> 'v" where
  "dict_get m k d = (case m k of None \<Rightarrow> d | Some v \<Rightarrow> v)"

text \<open>
  The body of the loop \<^verbatim>\<open>for suit in set(...)\<close> for one suit: the cards it appends
  to \<^verbatim>\<open>standing_cards\<close>. \<^verbatim>\<open>possible\<close> is a dictionary from suits to lists of
  cards, read with \<^verbatim>\<open>possible.get(suit, [])\<close>. \<^verbatim>\<open>max\<close> of an empty
  \<^verbatim>\<open>cards_in_hand\<close> raises \<^verbatim>\<open>ValueError\<close>.
\<close>

definition standing_of_suit ::
  "('s \<rightharpoonup> ('s, 'r::linorder) agent_card list) \<Rightarrow> ('s, 'r) agent_card list \<Rightarrow> 's \<Rightarrow> exn + ('s, 'r) agent_card list" where
  "standing_of_suit possible player_hand s =
     (let cards_in_hand = [card \<leftarrow> player_hand. suit card = s];
          possible_cards = dict_get possible s []
      in case cards_in_hand of
           [] \<Rightarrow> Inl ValueError
         | c # cs \<Rightarrow>
             (let highest_in_hand = max_rank_loop c cs;
                  by_rank = (case possible_cards of
                       [] \<Rightarrow> []
                     | p # ps \<Rightarrow>
                         (let highest_possible = max_rank_loop p ps
                          in if rank highest_in_hand \<ge> rank highest_possible
                             then [highest_in_hand] else []));
                  additional_cards =
                    (if length cards_in_hand > length possible_cards
                     then take (length cards_in_hand - length possible_cards)
                            (sorted_rank_reverse cards_in_hand)
                     else [])
              in Inr (by_rank @ additional_cards)))"

text \<open>The loop over the suits, in the order \<open>suits\<close>, appending to the result so far.\<close>

fun standing_loop ::
  "('s \<rightharpoonup> ('s, 'r::linorder) agent_card list) \<Rightarrow> ('s, 'r) agent_card list \<Rightarrow> 's list \<Rightarrow>
   ('s, 'r) agent_card list \<Rightarrow> exn + ('s, 'r) agent_card list" where
  "standing_loop possible player_hand [] standing = Inr standing"
| "standing_loop possible player_hand (s # ss) standing =
     (case standing_of_suit possible player_hand s of
        Inl e \<Rightarrow> Inl e
      | Inr new \<Rightarrow> standing_loop possible player_hand ss (standing @ new))"

text \<open>
  \<^verbatim>\<open>_standing_cards(possible, player_hand, trump_suit)\<close>. A trump suit that is
  \<^verbatim>\<open>''\<close> (the default) or \<^verbatim>\<open>None\<close> is \<open>None\<close> here. Python iterates over
  \<^verbatim>\<open>set(card.suit for card in player_hand)\<close> in an order the language does not
  fix; the order is the argument \<open>suits\<close>, and \<open>iteration_order\<close> says that it lists
  the suits of the hand, each once.
\<close>

definition iteration_order :: "'s list \<Rightarrow> ('s, 'r) agent_card list \<Rightarrow> bool" where
  "iteration_order suits player_hand \<longleftrightarrow>
     distinct suits \<and> set suits = set (map suit player_hand)"

definition standing_cards ::
  "'s list \<Rightarrow> ('s \<rightharpoonup> ('s, 'r::linorder) agent_card list) \<Rightarrow> ('s, 'r) agent_card list \<Rightarrow> 's option \<Rightarrow>
   exn + ('s, 'r) agent_card list" where
  "standing_cards suits possible player_hand trump_suit =
     (case trump_suit of
        Some t \<Rightarrow>
          (case [card \<leftarrow> player_hand. suit card = t] of
             [] \<Rightarrow> Inr []
           | c # cs \<Rightarrow> Inr [max_rank_loop c cs])
      | None \<Rightarrow> standing_loop possible player_hand suits [])"


subsection \<open>Facts about cards\<close>

lemma index_VALUES:
  "v \<in> set VALUES \<Longrightarrow> index VALUES v = Inr (spec_rank_position v)"
  by (auto simp: VALUES_def spec_rank_position_def)

text \<open>
  With the two names of \<^verbatim>\<open>card.py\<close> bound to the lists of \<^verbatim>\<open>utils.py\<close>, the
  constructor and the comparison do what the specification says of them.
\<close>

lemma Card_bound_to_utils:
  "(c \<notin> set COLORS \<or> v \<notin> set VALUES \<longrightarrow> Card bound_to_utils c v = Inl ValueError) \<and>
   (c \<in> set COLORS \<and> v \<in> set VALUES \<longrightarrow>
      Card bound_to_utils c v = Inr \<lparr>color = c, value = v\<rparr>) \<and>
   (\<forall>k. Card bound_to_utils c v = Inr k \<longrightarrow> valid_card k)"
  by (auto simp: Card_def bound_to_utils_def global_name_def valid_card_def)

lemma is_higher_than_bound:
  assumes "card_py_VALUES ns = Some VALUES"
    and "value a \<in> set VALUES" and "value b \<in> set VALUES"
  shows "is_higher_than ns a b
    = Inr (spec_rank_position (value b) < spec_rank_position (value a))"
  using assms by (simp add: is_higher_than_def global_name_def index_VALUES)

lemma is_higher_than_bound_canonical:
  assumes "valid_card a" and "valid_card b"
  shows "is_higher_than bound_to_utils a b
           = Inr (spec_rank_position (value b) < spec_rank_position (value a)) \<and>
         (value a = ''A'' \<longrightarrow> is_higher_than bound_to_utils a b = Inr False) \<and>
         (value b = ''6'' \<longrightarrow> is_higher_than bound_to_utils a b = Inr False)"
proof -
  from assms have va: "value a \<in> set VALUES" and vb: "value b \<in> set VALUES"
    by (simp_all add: valid_card_def)
  have "card_py_VALUES bound_to_utils = Some VALUES"
    by (simp add: bound_to_utils_def)
  from is_higher_than_bound [OF this va vb]
  have eq: "is_higher_than bound_to_utils a b
      = Inr (spec_rank_position (value b) < spec_rank_position (value a))" .
  have top: "spec_rank_position (value a) \<le> 8"
    by (simp add: spec_rank_position_def)
  show ?thesis
    using eq top by (auto simp: spec_rank_position_def)
qed

text \<open>
  C9, at the in-domain pair Green, 7 and at the out-of-domain pair x, A, and at every
  other pair: the specification has the first construction succeed and the second fail
  with an invalid-card error; in the repository as it stands every construction raises
  \<^verbatim>\<open>NameError\<close> at the first line of \<^verbatim>\<open>__init__\<close>, where \<^verbatim>\<open>COLORS\<close> is
  read.
\<close>

theorem Card_shipped_raises:
  "Card shipped ''g'' ''7'' = Inl NameError \<and>
   Card shipped ''x'' ''A'' = Inl NameError \<and>
   Card shipped c v = Inl NameError"
  by (simp add: Card_def shipped_def global_name_def)

text \<open>
  C3, at the cards Bells-6 and Red-A, and at every other pair of cards: the
  specification has Bells-6 higher than Red-A; in the repository as it stands
  \<^verbatim>\<open>is_higher_than\<close> raises \<^verbatim>\<open>NameError\<close>, where \<^verbatim>\<open>VALUES\<close> is read.
\<close>

theorem is_higher_than_shipped_raises:
  "is_higher_than shipped \<lparr>color = ''s'', value = ''6''\<rparr> \<lparr>color = ''r'', value = ''A''\<rparr>
     = Inl NameError \<and>
   is_higher_than shipped a b = Inl NameError"
  by (simp add: is_higher_than_def shipped_def global_name_def)

subsection \<open>Facts about the legal plays\<close>

lemma find_ace:
  assumes "\<lparr>color = col, value = ''A''\<rparr> \<in> set cards"
  shows "find (\<lambda>card. color card = col \<and> value card = ''A'') cards
    = Some \<lparr>color = col, value = ''A''\<rparr>"
  using assms by (induction cards) auto

lemma find_ace_None:
  "\<lparr>color = col, value = ''A''\<rparr> \<notin> set cards \<Longrightarrow>
   find (\<lambda>card. color card = col \<and> value card = ''A'') cards = None"
  by (induction cards) auto

lemma find_mem: "find P xs = Some x \<Longrightarrow> x \<in> set xs"
  by (induction xs) (auto split: if_splits)

text \<open>
  C7. Leading the first trick (empty trick, flag set), the legal plays are the aces of
  the hand if it has one, else its green cards if it has one, else the whole hand. The
  hand Red-A, Green-K, Bells-7 gives Red-A alone; the hand Bells-7, Green-K gives Green-K
  alone. No unbound name is read on this path.
\<close>

theorem first_lead_rule:
  "allowed_general ns [] cards trump True =
     Inr (if [c \<leftarrow> cards. value c = ''A''] \<noteq> [] then [c \<leftarrow> cards. value c = ''A'']
          else if [c \<leftarrow> cards. color c = ''g''] \<noteq> [] then [c \<leftarrow> cards. color c = ''g'']
          else cards) \<and>
   allowed_general ns []
       [\<lparr>color = ''r'', value = ''A''\<rparr>, \<lparr>color = ''g'', value = ''K''\<rparr>,
        \<lparr>color = ''s'', value = ''7''\<rparr>] trump True
     = Inr [\<lparr>color = ''r'', value = ''A''\<rparr>] \<and>
   allowed_general ns [] [\<lparr>color = ''s'', value = ''7''\<rparr>, \<lparr>color = ''g'', value = ''K''\<rparr>] trump True
     = Inr [\<lparr>color = ''g'', value = ''K''\<rparr>]"
  by (simp add: allowed_general_def allowed_first_def Let_def)

text \<open>
  C6. Following in the first trick (non-empty trick, flag set) with the Ace of the led
  color in hand, the legal plays are that Ace alone, whatever else the hand holds and
  whatever the trump is. The Ace is returned before \<^verbatim>\<open>high_card\<close> is called.
\<close>

theorem first_trick_follow_ace:
  assumes "\<lparr>color = color t0, value = ''A''\<rparr> \<in> set cards"
  shows "allowed_general ns (t0 # rest) cards trump True
    = Inr [\<lparr>color = color t0, value = ''A''\<rparr>]"
  using find_ace [OF assms] by (simp add: allowed_general_def)

theorem first_trick_follow_ace_witness:
  "\<lparr>color = color \<lparr>color = ''r'', value = ''K''\<rparr>, value = ''A''\<rparr>
     \<in> set [\<lparr>color = ''r'', value = ''6''\<rparr>, \<lparr>color = ''r'', value = ''A''\<rparr>,
             \<lparr>color = ''g'', value = ''A''\<rparr>] \<and>
   allowed_general shipped [\<lparr>color = ''r'', value = ''K''\<rparr>, \<lparr>color = ''r'', value = ''Z''\<rparr>]
       [\<lparr>color = ''r'', value = ''6''\<rparr>, \<lparr>color = ''r'', value = ''A''\<rparr>,
        \<lparr>color = ''g'', value = ''A''\<rparr>] (Some ''g'') True
     = Inr [\<lparr>color = ''r'', value = ''A''\<rparr>]"
proof -
  have h: "\<lparr>color = color \<lparr>color = ''r'', value = ''K''\<rparr>, value = ''A''\<rparr>
     \<in> set [\<lparr>color = ''r'', value = ''6''\<rparr>, \<lparr>color = ''r'', value = ''A''\<rparr>,
             \<lparr>color = ''g'', value = ''A''\<rparr>]"
    by simp
  show ?thesis
    using h first_trick_follow_ace [OF h, where ns = shipped
        and rest = "[\<lparr>color = ''r'', value = ''Z''\<rparr>]" and trump = "Some ''g''"]
    by simp
qed

text \<open>
  C10. Whenever \<^verbatim>\<open>allowed_general\<close> returns a list, every card of the list is a
  card of the hand it was given.
\<close>

theorem allowed_general_subset_hand:
  assumes "allowed_general ns trick cards trump first = Inr res"
  shows "set res \<subseteq> set cards"
  using assms
  by (auto simp: allowed_general_def allowed_first_def Let_def
      split: if_splits list.splits option.splits sum.splits dest: find_mem)

text \<open>
  Two calls that return in the repository as it stands: a first-trick follow with the
  led Ace in hand, and a later-trick follow with neither the led color nor a trump in
  hand, where \<^verbatim>\<open>high_card\<close> is called on the trick alone and the hand is returned.
\<close>

theorem allowed_general_subset_hand_witness:
  "allowed_general shipped [\<lparr>color = ''r'', value = ''K''\<rparr>, \<lparr>color = ''r'', value = ''Z''\<rparr>]
       [\<lparr>color = ''r'', value = ''6''\<rparr>, \<lparr>color = ''r'', value = ''A''\<rparr>,
        \<lparr>color = ''g'', value = ''A''\<rparr>] (Some ''g'') True
     = Inr [\<lparr>color = ''r'', value = ''A''\<rparr>] \<and>
   set [\<lparr>color = ''r'', value = ''A''\<rparr>]
     \<subseteq> set [\<lparr>color = ''r'', value = ''6''\<rparr>, \<lparr>color = ''r'', value = ''A''\<rparr>,
              \<lparr>color = ''g'', value = ''A''\<rparr>] \<and>
   allowed_general shipped [\<lparr>color = ''r'', value = ''A''\<rparr>]
       [\<lparr>color = ''s'', value = ''Z''\<rparr>, \<lparr>color = ''g'', value = ''7''\<rparr>] None False
     = Inr [\<lparr>color = ''s'', value = ''Z''\<rparr>, \<lparr>color = ''g'', value = ''7''\<rparr>] \<and>
   set [\<lparr>color = ''s'', value = ''Z''\<rparr>, \<lparr>color = ''g'', value = ''7''\<rparr>]
     \<subseteq> set [\<lparr>color = ''s'', value = ''Z''\<rparr>, \<lparr>color = ''g'', value = ''7''\<rparr>]"
proof -
  have h1: "allowed_general shipped
       [\<lparr>color = ''r'', value = ''K''\<rparr>, \<lparr>color = ''r'', value = ''Z''\<rparr>]
       [\<lparr>color = ''r'', value = ''6''\<rparr>, \<lparr>color = ''r'', value = ''A''\<rparr>,
        \<lparr>color = ''g'', value = ''A''\<rparr>] (Some ''g'') True
     = Inr [\<lparr>color = ''r'', value = ''A''\<rparr>]"
    by (simp add: allowed_general_def)
  have h2: "allowed_general shipped [\<lparr>color = ''r'', value = ''A''\<rparr>]
       [\<lparr>color = ''s'', value = ''Z''\<rparr>, \<lparr>color = ''g'', value = ''7''\<rparr>] None False
     = Inr [\<lparr>color = ''s'', value = ''Z''\<rparr>, \<lparr>color = ''g'', value = ''7''\<rparr>]"
    by (simp add: allowed_general_def high_card_def max_key_def)
  show ?thesis
    using h1 h2 allowed_general_subset_hand [OF h1] allowed_general_subset_hand [OF h2]
    by simp
qed

subsection \<open>What high\_card computes\<close>

text \<open>
  Two cards of the led color among the cards given to \<^verbatim>\<open>high_card\<close> make the inner
  \<^verbatim>\<open>max\<close> compare two \<^verbatim>\<open>Card\<close> objects, which raises \<^verbatim>\<open>TypeError\<close>
  before the key is called, whatever \<^verbatim>\<open>card.VALUES\<close> is.
\<close>

lemma high_card_led_twice:
  assumes "x \<in> set cs" and "color x = color c0"
  shows "high_card ns (c0 # cs) trump = Inl TypeError"
proof -
  from assms have "[card \<leftarrow> cs. color card = color c0] \<noteq> []"
    by (auto simp: filter_empty_conv)
  then obtain y ys where "[card \<leftarrow> cs. color card = color c0] = y # ys"
    by (cases "[card \<leftarrow> cs. color card = color c0]") auto
  then show ?thesis by (simp add: high_card_def)
qed

lemma high_card_Nil: "high_card ns [] trump = Inr None"
  by (simp add: high_card_def)

text \<open>
  The repository as it stands never compares two ranks: \<^verbatim>\<open>high_card\<close> raises
  \<^verbatim>\<open>TypeError\<close> when a second card has the led color, else raises
  \<^verbatim>\<open>AttributeError\<close> when a card has the trump color (the key is called on it),
  else returns the first card.
\<close>

lemma max_key_shipped:
  "xs \<noteq> [] \<Longrightarrow> max_key xs d (high_card_key shipped) = Inl AttributeError"
  by (cases xs) (simp_all add: max_key_def high_card_key_def shipped_def attribute_def)

lemma high_card_shipped:
  "high_card shipped (c0 # cs) trump =
     (if \<exists>x\<in>set cs. color x = color c0 then Inl TypeError
      else if \<exists>x\<in>set (c0 # cs). Some (color x) = trump then Inl AttributeError
      else Inr (Some c0))"
proof (cases "\<exists>x\<in>set cs. color x = color c0")
  case True
  then show ?thesis using high_card_led_twice [of _ cs c0 shipped trump] by auto
next
  case False
  then have led: "[card \<leftarrow> c0 # cs. color card = color c0] = [c0]"
    by (simp add: filter_empty_conv)
  let ?T = "[card \<leftarrow> c0 # cs. Some (color card) = trump]"
  have eq: "high_card shipped (c0 # cs) trump = max_key ?T (Some c0) (high_card_key shipped)"
    unfolding high_card_def Let_def list.case led by simp
  show ?thesis
  proof (cases "?T = []")
    case True
    then have "\<not> (\<exists>x\<in>set (c0 # cs). Some (color x) = trump)"
      by (simp only: filter_empty_conv) blast
    moreover have "high_card shipped (c0 # cs) trump = Inr (Some c0)"
      unfolding eq True by (simp add: max_key_def)
    ultimately show ?thesis using False by simp
  next
    case F: False
    then have "\<exists>x\<in>set (c0 # cs). Some (color x) = trump"
      by (simp only: filter_empty_conv) blast
    moreover have "high_card shipped (c0 # cs) trump = Inl AttributeError"
      unfolding eq by (rule max_key_shipped [OF F])
    ultimately show ?thesis using False by simp
  qed
qed

text \<open>
  With \<^verbatim>\<open>card.VALUES\<close> bound to the list of \<^verbatim>\<open>utils.py\<close> and the first card the
  only one of its color, \<^verbatim>\<open>high_card\<close> returns the highest trump card if a card of
  the trump color is present, else the first card.
\<close>

lemma max_key_loop_valid:
  assumes "Card_VALUES ns = Some VALUES"
    and "\<forall>x\<in>set xs. value x \<in> set VALUES" and "kb = spec_rank_position (value best)"
  shows "\<exists>m. max_key_loop (high_card_key ns) best kb xs = Inr m \<and>
     m \<in> set (best # xs) \<and>
     (\<forall>x\<in>set (best # xs). spec_rank_position (value x) \<le> spec_rank_position (value m))"
  using assms(2,3)
proof (induction xs arbitrary: best kb)
  case Nil
  show ?case by simp
next
  case (Cons y ys)
  have y: "high_card_key ns y = Inr (spec_rank_position (value y))"
    using Cons.prems(1) assms(1) by (simp add: high_card_key_def attribute_def index_VALUES)
  have ys: "\<forall>x\<in>set ys. value x \<in> set VALUES" using Cons.prems(1) by simp
  show ?case
  proof (cases "spec_rank_position (value y) > kb")
    case True
    from Cons.IH [OF ys, of "spec_rank_position (value y)" y]
    obtain m where m: "max_key_loop (high_card_key ns) y
          (spec_rank_position (value y)) ys = Inr m"
      and mem: "m \<in> set (y # ys)"
      and ge: "\<forall>x\<in>set (y # ys). spec_rank_position (value x) \<le> spec_rank_position (value m)"
      by auto
    have "spec_rank_position (value best) \<le> spec_rank_position (value m)"
      using True ge Cons.prems(2) by fastforce
    with m mem ge True y show ?thesis by auto
  next
    case False
    from Cons.IH [OF ys Cons.prems(2)]
    obtain m where m: "max_key_loop (high_card_key ns) best kb ys = Inr m"
      and mem: "m \<in> set (best # ys)"
      and ge: "\<forall>x\<in>set (best # ys). spec_rank_position (value x) \<le> spec_rank_position (value m)"
      by auto
    have "spec_rank_position (value y) \<le> spec_rank_position (value m)"
      using False ge Cons.prems(2) by fastforce
    with m mem ge False y show ?thesis by auto
  qed
qed

lemma max_key_valid:
  assumes "Card_VALUES ns = Some VALUES"
    and "\<forall>x\<in>set xs. value x \<in> set VALUES" and "xs \<noteq> []"
  shows "\<exists>m. max_key xs d (high_card_key ns) = Inr (Some m) \<and> m \<in> set xs \<and>
     (\<forall>x\<in>set xs. spec_rank_position (value x) \<le> spec_rank_position (value m))"
proof -
  from assms(3) obtain y ys where xs: "xs = y # ys" by (cases xs) auto
  have y: "high_card_key ns y = Inr (spec_rank_position (value y))"
    using assms(1,2) xs by (simp add: high_card_key_def attribute_def index_VALUES)
  have "\<forall>x\<in>set ys. value x \<in> set VALUES" using assms(2) xs by simp
  from max_key_loop_valid [OF assms(1) this refl, of y]
  show ?thesis unfolding xs max_key_def by (auto simp: y)
qed

lemma high_card_one_led:
  assumes "Card_VALUES ns = Some VALUES"
    and "\<forall>x\<in>set (c0 # cs). value x \<in> set VALUES" and "\<forall>x\<in>set cs. color x \<noteq> color c0"
  shows "\<exists>m. high_card ns (c0 # cs) trump = Inr (Some m) \<and> m \<in> set (c0 # cs) \<and>
     (if \<exists>x\<in>set (c0 # cs). Some (color x) = trump
      then Some (color m) = trump \<and>
           (\<forall>x\<in>set (c0 # cs). Some (color x) = trump \<longrightarrow>
              spec_rank_position (value x) \<le> spec_rank_position (value m))
      else m = c0)"
proof -
  let ?T = "[card \<leftarrow> c0 # cs. Some (color card) = trump]"
  have led: "[card \<leftarrow> c0 # cs. color card = color c0] = [c0]"
    using assms(3) by (simp add: filter_empty_conv)
  have eq: "high_card ns (c0 # cs) trump = max_key ?T (Some c0) (high_card_key ns)"
    unfolding high_card_def Let_def list.case led by simp
  show ?thesis
  proof (cases "?T = []")
    case True
    then have "\<not> (\<exists>x\<in>set (c0 # cs). Some (color x) = trump)"
      by (simp only: filter_empty_conv) blast
    moreover have "high_card ns (c0 # cs) trump = Inr (Some c0)"
      unfolding eq True by (simp add: max_key_def)
    ultimately show ?thesis by auto
  next
    case False
    have v: "\<forall>x\<in>set ?T. value x \<in> set VALUES"
      using assms(2) unfolding set_filter by blast
    from max_key_valid [OF assms(1) v False, of "Some c0"]
    obtain m where m: "max_key ?T (Some c0) (high_card_key ns) = Inr (Some m)"
      and mem: "m \<in> set ?T"
      and ge: "\<forall>x\<in>set ?T. spec_rank_position (value x) \<le> spec_rank_position (value m)"
      by blast
    have mm: "m \<in> set (c0 # cs) \<and> Some (color m) = trump"
      using mem unfolding set_filter by blast
    then have ex: "\<exists>x\<in>set (c0 # cs). Some (color x) = trump" by blast
    have "m \<in> set (c0 # cs)" and "Some (color m) = trump" using mm by blast+
    moreover have "\<forall>x\<in>set (c0 # cs). Some (color x) = trump \<longrightarrow>
              spec_rank_position (value x) \<le> spec_rank_position (value m)"
      using ge unfolding set_filter by blast
    ultimately show ?thesis using m ex unfolding eq by (simp only: if_True) blast
  qed
qed

text \<open>
  So every call of \<^verbatim>\<open>allowed_general\<close> that has a card of the led color to follow
  with raises \<^verbatim>\<open>TypeError\<close>, unless the first-trick Ace rule answers before
  \<^verbatim>\<open>high_card\<close> is called.
\<close>

lemma following_suit_raises:
  assumes "x \<in> set cards" and "color x = color t0"
    and "first \<longrightarrow> \<lparr>color = color t0, value = ''A''\<rparr> \<notin> set cards"
  shows "allowed_general ns (t0 # rest) cards trump first = Inl TypeError"
proof -
  let ?allowed = "[card \<leftarrow> cards. color card = color t0]"
  have x: "x \<in> set ?allowed" using assms by simp
  then have ne: "?allowed \<noteq> []" by (auto simp del: set_filter)
  have ace: "(if first then find (\<lambda>card. color card = color t0 \<and> value card = ''A'') cards
      else None) = None"
    using assms(3) by (simp add: find_ace_None)
  have "high_card ns ((t0 # rest) @ ?allowed) trump = Inl TypeError"
    using high_card_led_twice [of x "rest @ ?allowed" t0 ns trump] x assms(2) by simp
  then show ?thesis
    using ne ace unfolding allowed_general_def Let_def by simp
qed

text \<open>
  C2, at the input Red-A, Red-Ten, Red-7 with no trump: the specification has
  \<^verbatim>\<open>high_card\<close> return Red-7; the code raises \<^verbatim>\<open>TypeError\<close>, with the default
  trump \<^verbatim>\<open>""\<close> as with \<^verbatim>\<open>None\<close>, and whatever \<^verbatim>\<open>card.VALUES\<close> is.
\<close>

theorem high_card_same_color_raises:
  "high_card ns [\<lparr>color = ''r'', value = ''A''\<rparr>, \<lparr>color = ''r'', value = ''Z''\<rparr>,
      \<lparr>color = ''r'', value = ''7''\<rparr>] (Some []) = Inl TypeError \<and>
   high_card ns [\<lparr>color = ''r'', value = ''A''\<rparr>, \<lparr>color = ''r'', value = ''Z''\<rparr>,
      \<lparr>color = ''r'', value = ''7''\<rparr>] None = Inl TypeError"
  by (simp add: high_card_def)

text \<open>
  C1, at the example of the specification: trick led with Red-A, hand Red-Ten and Red-7,
  no trump, not the first trick. The specification has the legal plays be Red-7 alone;
  the code raises \<^verbatim>\<open>TypeError\<close>.
\<close>

theorem forced_overtake_example_raises:
  "allowed_general ns [\<lparr>color = ''r'', value = ''A''\<rparr>]
      [\<lparr>color = ''r'', value = ''Z''\<rparr>, \<lparr>color = ''r'', value = ''7''\<rparr>] None False
     = Inl TypeError"
  by (simp add: allowed_general_def high_card_def)

text \<open>
  C4, at a hand of one card that follows the led color: trick led with Red-A, hand Red-Ten.
  The specification has \<^verbatim>\<open>allowed_general\<close> return a non-empty list; the code raises
  \<^verbatim>\<open>TypeError\<close> and returns no list.
\<close>

theorem allowed_general_one_card_raises:
  "allowed_general ns [\<lparr>color = ''r'', value = ''A''\<rparr>] [\<lparr>color = ''r'', value = ''Z''\<rparr>] None False
     = Inl TypeError \<and>
   allowed_general ns [\<lparr>color = ''r'', value = ''A''\<rparr>] [\<lparr>color = ''r'', value = ''Z''\<rparr>]
      (Some ''g'') True
     = Inl TypeError"
  by (simp add: allowed_general_def high_card_def)

subsection \<open>Facts about higher\_cards\<close>

lemma filter_exn_total:
  "\<forall>x\<in>set xs. p x = Inr (q x) \<Longrightarrow> filter_exn p xs = Inr (filter q xs)"
  by (induction xs) auto

lemma bound_to_utils_sel:
  "card_py_COLORS bound_to_utils = Some COLORS"
  "card_py_VALUES bound_to_utils = Some VALUES"
  "Card_VALUES bound_to_utils = Some VALUES"
  by (simp_all add: bound_to_utils_def)

lemma CARDS_shipped: "CARDS shipped = Inl NameError"
  by (simp add: CARDS_def COLORS_def VALUES_def Card_def shipped_def global_name_def)

lemma CARDS_bound_to_utils: "CARDS bound_to_utils = Inr [
  \<lparr>color = ''r'', value = ''A''\<rparr>, \<lparr>color = ''r'', value = ''Z''\<rparr>, \<lparr>color = ''r'', value = ''K''\<rparr>,
  \<lparr>color = ''r'', value = ''O''\<rparr>, \<lparr>color = ''r'', value = ''U''\<rparr>, \<lparr>color = ''r'', value = ''9''\<rparr>,
  \<lparr>color = ''r'', value = ''8''\<rparr>, \<lparr>color = ''r'', value = ''7''\<rparr>, \<lparr>color = ''r'', value = ''6''\<rparr>,
  \<lparr>color = ''s'', value = ''A''\<rparr>, \<lparr>color = ''s'', value = ''Z''\<rparr>, \<lparr>color = ''s'', value = ''K''\<rparr>,
  \<lparr>color = ''s'', value = ''O''\<rparr>, \<lparr>color = ''s'', value = ''U''\<rparr>, \<lparr>color = ''s'', value = ''9''\<rparr>,
  \<lparr>color = ''s'', value = ''8''\<rparr>, \<lparr>color = ''s'', value = ''7''\<rparr>, \<lparr>color = ''s'', value = ''6''\<rparr>,
  \<lparr>color = ''e'', value = ''A''\<rparr>, \<lparr>color = ''e'', value = ''Z''\<rparr>, \<lparr>color = ''e'', value = ''K''\<rparr>,
  \<lparr>color = ''e'', value = ''O''\<rparr>, \<lparr>color = ''e'', value = ''U''\<rparr>, \<lparr>color = ''e'', value = ''9''\<rparr>,
  \<lparr>color = ''e'', value = ''8''\<rparr>, \<lparr>color = ''e'', value = ''7''\<rparr>, \<lparr>color = ''e'', value = ''6''\<rparr>,
  \<lparr>color = ''g'', value = ''A''\<rparr>, \<lparr>color = ''g'', value = ''Z''\<rparr>, \<lparr>color = ''g'', value = ''K''\<rparr>,
  \<lparr>color = ''g'', value = ''O''\<rparr>, \<lparr>color = ''g'', value = ''U''\<rparr>, \<lparr>color = ''g'', value = ''9''\<rparr>,
  \<lparr>color = ''g'', value = ''8''\<rparr>, \<lparr>color = ''g'', value = ''7''\<rparr>, \<lparr>color = ''g'', value = ''6''\<rparr>]"
  by (simp add: CARDS_def COLORS_def VALUES_def Card_def bound_to_utils_def global_name_def)

text \<open>
  In the repository as it stands \<^verbatim>\<open>higher_cards\<close> raises \<^verbatim>\<open>NameError\<close> on
  every pool but the empty list: the deck cannot be built, and on a given pool the first
  call of \<^verbatim>\<open>is_higher_than\<close> raises.
\<close>

lemma higher_cards_shipped:
  "pool \<noteq> Some [] \<Longrightarrow> higher_cards shipped base trump pool = Inl NameError"
proof (cases pool)
  case None
  then show ?thesis by (simp add: higher_cards_def CARDS_shipped)
next
  case (Some p)
  assume "pool \<noteq> Some []"
  with Some obtain x xs where "p = x # xs" by (cases p) auto
  with Some show ?thesis
    by (simp add: higher_cards_def is_higher_than_def shipped_def global_name_def)
qed

text \<open>
  What \<^verbatim>\<open>higher_cards\<close> returns on cards of the domain once \<^verbatim>\<open>VALUES\<close> is bound
  in \<^verbatim>\<open>card.py\<close>: the cards of the color of \<open>base\<close> that are higher than \<open>base\<close>
  and, when a trump is declared, every card of the trump color, with no regard to the
  color of \<open>base\<close>.
\<close>

lemma higher_cards_valid:
  assumes "card_py_VALUES ns = Some VALUES"
    and "valid_card base" and "\<forall>k\<in>set pool. valid_card k"
  shows "higher_cards ns base trump (Some pool) =
     Inr [card \<leftarrow> pool.
            (spec_rank_position (value base) < spec_rank_position (value card)
               \<and> color base = color card)
            \<or> (trump \<noteq> None \<and> trump \<noteq> Some [] \<and> Some (color card) = trump)]"
proof -
  have hi: "is_higher_than ns k base
      = Inr (spec_rank_position (value base) < spec_rank_position (value k))"
    if "k \<in> set pool" for k
    using that assms by (auto simp: valid_card_def intro: is_higher_than_bound)
  show ?thesis
  proof (cases "trump = None \<or> trump = Some []")
    case True
    then show ?thesis
      unfolding higher_cards_def Let_def
      by (auto simp: hi intro!: filter_exn_total [THEN trans] filter_cong)
  next
    case False
    then show ?thesis
      unfolding higher_cards_def Let_def
      by (auto simp: hi intro!: filter_exn_total [THEN trans] filter_cong)
  qed
qed

text \<open>With the names bound, the example of the specification with no trump holds.\<close>

lemma higher_cards_king_no_trump:
  "higher_cards bound_to_utils \<lparr>color = ''r'', value = ''K''\<rparr> None None =
     Inr [\<lparr>color = ''r'', value = ''O''\<rparr>, \<lparr>color = ''r'', value = ''U''\<rparr>,
          \<lparr>color = ''r'', value = ''9''\<rparr>, \<lparr>color = ''r'', value = ''8''\<rparr>,
          \<lparr>color = ''r'', value = ''7''\<rparr>, \<lparr>color = ''r'', value = ''6''\<rparr>]"
  by (simp add: higher_cards_def CARDS_bound_to_utils is_higher_than_def global_name_def
      bound_to_utils_sel VALUES_def)

text \<open>
  C5, at a base card of the trump color: Red-K with trump Red over the whole deck. The
  specification has the result be the Red cards above the King and never Red-K itself.
  The repository as it stands raises \<^verbatim>\<open>NameError\<close>; with the names of
  \<^verbatim>\<open>card.py\<close> bound, the code returns all nine Red cards, among them Red-K and the
  lower Red-A and Red-Ten.
\<close>

theorem higher_cards_trump_base:
  "higher_cards shipped \<lparr>color = ''r'', value = ''K''\<rparr> (Some ''r'') None = Inl NameError \<and>
   higher_cards bound_to_utils \<lparr>color = ''r'', value = ''K''\<rparr> (Some ''r'') None =
     Inr [\<lparr>color = ''r'', value = ''A''\<rparr>, \<lparr>color = ''r'', value = ''Z''\<rparr>,
          \<lparr>color = ''r'', value = ''K''\<rparr>, \<lparr>color = ''r'', value = ''O''\<rparr>,
          \<lparr>color = ''r'', value = ''U''\<rparr>, \<lparr>color = ''r'', value = ''9''\<rparr>,
          \<lparr>color = ''r'', value = ''8''\<rparr>, \<lparr>color = ''r'', value = ''7''\<rparr>,
          \<lparr>color = ''r'', value = ''6''\<rparr>]"
  by (simp add: higher_cards_def CARDS_bound_to_utils CARDS_shipped is_higher_than_def
      global_name_def bound_to_utils_sel VALUES_def)

subsection \<open>Facts about the standing cards\<close>

text \<open>The card that \<^verbatim>\<open>max\<close> by rank returns is in the list and no card outranks it.\<close>

lemma max_rank_loop_mem: "max_rank_loop b xs \<in> set (b # xs)"
proof (induction xs arbitrary: b)
  case Nil
  show ?case by simp
next
  case (Cons x xs)
  show ?case using Cons.IH [of x] Cons.IH [of b] by auto
qed

lemma max_rank_loop_ge_best: "rank b \<le> rank (max_rank_loop b xs)"
proof (induction xs arbitrary: b)
  case Nil
  show ?case by simp
next
  case (Cons x xs)
  show ?case using Cons.IH [of x] Cons.IH [of b] by (auto intro: order_trans less_imp_le)
qed

lemma max_rank_loop_ge: "x \<in> set (b # xs) \<Longrightarrow> rank x \<le> rank (max_rank_loop b xs)"
proof (induction xs arbitrary: b)
  case Nil
  then show ?case by simp
next
  case (Cons y ys)
  show ?case
  proof (cases "rank b < rank y")
    case True
    have "rank y \<le> rank (max_rank_loop y ys)" by (rule max_rank_loop_ge_best)
    with True Cons show ?thesis by (auto intro: order_trans less_imp_le)
  next
    case False
    have "rank b \<le> rank (max_rank_loop b ys)" by (rule max_rank_loop_ge_best)
    with False Cons show ?thesis by (auto intro: order_trans simp: not_less)
  qed
qed

lemma sorted_rank_reverse_set: "set (sorted_rank_reverse xs) = set xs"
  by (simp add: sorted_rank_reverse_def)

lemma sorted_rank_reverse_desc:
  "sorted_wrt (\<lambda>a b. rank b \<le> rank a) (sorted_rank_reverse xs)"
proof -
  have "sorted (map rank (sort_key rank (rev xs)))" by (rule sorted_sort_key)
  then show ?thesis
    by (simp add: sorted_rank_reverse_def sorted_wrt_rev sorted_wrt_map)
qed

lemma sorted_rank_reverse_count:
  "length (filter P (sorted_rank_reverse xs)) = length (filter P xs)"
proof -
  have "length (filter P (sorted_rank_reverse xs)) = length (filter P (sort_key rank (rev xs)))"
    by (simp add: sorted_rank_reverse_def flip: rev_filter)
  also have "\<dots> = length (filter P (rev xs))"
    by (simp add: filter_sort)
  also have "\<dots> = length (filter P xs)"
    by (simp flip: rev_filter)
  finally show ?thesis .
qed

lemma take_desc_iff:
  fixes ys :: "('s, 'r::linorder) agent_card list"
  assumes "sorted_wrt (\<lambda>a b. rank b \<le> rank a) ys" and "inj_on rank (set ys)"
  shows "c \<in> set (take k ys) \<longleftrightarrow> c \<in> set ys \<and> length [x \<leftarrow> ys. rank c < rank x] < k"
  using assms
proof (induction ys arbitrary: k)
  case Nil
  show ?case by simp
next
  case (Cons y ys)
  have le: "\<forall>x\<in>set ys. rank x \<le> rank y" using Cons.prems(1) by simp
  have sorted': "sorted_wrt (\<lambda>a b. rank b \<le> rank a) ys" using Cons.prems(1) by simp
  have inj': "inj_on rank (set ys)" using Cons.prems(2) by (simp add: inj_on_def)
  note IH = Cons.IH [OF sorted' inj']
  show ?case
  proof (cases k)
    case 0
    then show ?thesis by simp
  next
    case (Suc k')
    show ?thesis
    proof (cases "c = y")
      case True
      have "[x \<leftarrow> ys. rank y < rank x] = []"
        using le by (fastforce simp: filter_empty_conv)
      with True Suc show ?thesis by simp
    next
      case False
      show ?thesis
      proof (cases "c \<in> set ys")
        case True
        have "rank c \<noteq> rank y"
          using Cons.prems(2) True False by (auto simp: inj_on_def)
        with le True have "rank c < rank y" by (auto simp: less_le)
        with False Suc IH [of k'] True show ?thesis by simp
      next
        case False2: False
        have "c \<notin> set (take k' ys)" using False2 by (auto dest: in_set_takeD)
        with False False2 Suc show ?thesis by simp
      qed
    qed
  qed
qed

text \<open>
  Cards of one suit differ in rank, so the highest card of a suit in hand is one card,
  and the first cards of the descending sort are those that few cards outrank.
\<close>

lemma same_suit_rank_inj:
  fixes hand :: "('s, 'r) agent_card list"
  shows "inj_on rank (set [card \<leftarrow> hand. suit card = s])"
  by (auto simp: inj_on_def)

lemma additional_cards_iff:
  fixes H :: "('s, 'r::linorder) agent_card list"
  assumes "inj_on rank (set H)"
  shows "c \<in> set (if length H > n then take (length H - n) (sorted_rank_reverse H) else [])
    \<longleftrightarrow> c \<in> set H \<and> length [x \<leftarrow> H. rank c < rank x] < length H - n"
proof -
  have inj: "inj_on rank (set (sorted_rank_reverse H))"
    using assms by (simp add: sorted_rank_reverse_set)
  have "c \<in> set (take (length H - n) (sorted_rank_reverse H))
    \<longleftrightarrow> c \<in> set H \<and> length [x \<leftarrow> H. rank c < rank x] < length H - n"
    using take_desc_iff [OF sorted_rank_reverse_desc inj, of c "length H - n"]
    by (simp add: sorted_rank_reverse_set sorted_rank_reverse_count)
  then show ?thesis by auto
qed

lemma by_rank_iff:
  fixes h :: "('s, 'r::linorder) agent_card"
  assumes "inj_on rank (set (h # hs))"
  shows "c \<in> set (case P of [] \<Rightarrow> []
              | p # ps \<Rightarrow> if rank (max_rank_loop h hs) \<ge> rank (max_rank_loop p ps)
                          then [max_rank_loop h hs] else [])
    \<longleftrightarrow> P \<noteq> [] \<and> c \<in> set (h # hs) \<and> (\<forall>x\<in>set (h # hs). rank x \<le> rank c)
        \<and> (\<forall>p\<in>set P. rank p \<le> rank c)"
proof (cases P)
  case Nil
  then show ?thesis by simp
next
  case (Cons p ps)
  let ?hh = "max_rank_loop h hs" and ?hp = "max_rank_loop p ps"
  have hh_mem: "?hh \<in> set (h # hs)" by (rule max_rank_loop_mem)
  have hh_ge: "\<forall>x\<in>set (h # hs). rank x \<le> rank ?hh" by (blast intro: max_rank_loop_ge)
  have hp_mem: "?hp \<in> set P" unfolding Cons by (rule max_rank_loop_mem)
  have hp_ge: "\<forall>x\<in>set P. rank x \<le> rank ?hp" unfolding Cons by (blast intro: max_rank_loop_ge)
  have uniq: "c = ?hh" if "c \<in> set (h # hs)" and "\<forall>x\<in>set (h # hs). rank x \<le> rank c"
  proof -
    have "rank ?hh \<le> rank c" using that(2) hh_mem by blast
    moreover have "rank c \<le> rank ?hh" using hh_ge that(1) by blast
    ultimately have "rank c = rank ?hh" by simp
    with assms that(1) hh_mem show ?thesis by (auto simp: inj_on_def)
  qed
  show ?thesis
  proof (cases "rank ?hp \<le> rank ?hh")
    case True
    have all: "\<forall>p\<in>set P. rank p \<le> rank ?hh" using hp_ge True by (blast intro: order_trans)
    have "c = ?hh \<longleftrightarrow> c \<in> set (h # hs) \<and> (\<forall>x\<in>set (h # hs). rank x \<le> rank c)
        \<and> (\<forall>p\<in>set P. rank p \<le> rank c)"
      using uniq hh_mem hh_ge all by blast
    with True Cons show ?thesis by simp
  next
    case False
    have "\<not> (c \<in> set (h # hs) \<and> (\<forall>x\<in>set (h # hs). rank x \<le> rank c)
        \<and> (\<forall>p\<in>set P. rank p \<le> rank c))"
    proof
      assume a: "c \<in> set (h # hs) \<and> (\<forall>x\<in>set (h # hs). rank x \<le> rank c)
        \<and> (\<forall>p\<in>set P. rank p \<le> rank c)"
      then have "c = ?hh" using uniq by blast
      with a hp_mem have "rank ?hp \<le> rank ?hh" by blast
      with False show False by simp
    qed
    with False Cons show ?thesis by simp
  qed
qed

lemma standing_of_suit_char:
  fixes hand :: "('s, 'r::linorder) agent_card list"
  assumes "[card \<leftarrow> hand. suit card = s] \<noteq> []"
  shows "\<exists>r. standing_of_suit possible hand s = Inr r \<and>
    (\<forall>c. c \<in> set r \<longleftrightarrow> c \<in> set hand \<and> suit c = s \<and>
       ((\<forall>x\<in>set hand. suit x = s \<longrightarrow> rank x \<le> rank c) \<and>
        (\<forall>p\<in>set (dict_get possible s []). rank p \<le> rank c)
        \<or> length [x \<leftarrow> [card \<leftarrow> hand. suit card = s]. rank c < rank x]
           < length [card \<leftarrow> hand. suit card = s]
             - length (dict_get possible s [])))"
proof -
  let ?H = "[card \<leftarrow> hand. suit card = s]"
  let ?P = "dict_get possible s []"
  from assms obtain h hs where H: "?H = h # hs" by (cases ?H) auto
  have inj: "inj_on rank (set ?H)" by (rule same_suit_rank_inj)
  let ?B = "case ?P of [] \<Rightarrow> []
              | p # ps \<Rightarrow> if rank (max_rank_loop h hs) \<ge> rank (max_rank_loop p ps)
                          then [max_rank_loop h hs] else []"
  let ?A = "if length ?H > length ?P then take (length ?H - length ?P) (sorted_rank_reverse ?H) else []"
  have eq: "standing_of_suit possible hand s = Inr (?B @ ?A)"
    unfolding standing_of_suit_def Let_def H [symmetric]
    by (simp add: H)
  have B: "c \<in> set ?B \<longleftrightarrow> ?P \<noteq> [] \<and> c \<in> set ?H \<and> (\<forall>x\<in>set ?H. rank x \<le> rank c)
        \<and> (\<forall>p\<in>set ?P. rank p \<le> rank c)" for c
    using by_rank_iff [of h hs c ?P] inj unfolding H by simp
  have A: "c \<in> set ?A \<longleftrightarrow> c \<in> set ?H \<and> length [x \<leftarrow> ?H. rank c < rank x] < length ?H - length ?P" for c
    by (rule additional_cards_iff [OF inj])
  have top: "length [x \<leftarrow> ?H. rank c < rank x] < length ?H - length ?P"
    if "?P = []" and "\<forall>x\<in>set ?H. rank x \<le> rank c" for c
  proof -
    have "[x \<leftarrow> ?H. rank c < rank x] = []"
      using that(2) by (fastforce simp: filter_empty_conv)
    moreover have "0 < length ?H" using assms by simp
    ultimately show ?thesis using that(1) by simp
  qed
  have "c \<in> set (?B @ ?A) \<longleftrightarrow> c \<in> set hand \<and> suit c = s \<and>
       ((\<forall>x\<in>set hand. suit x = s \<longrightarrow> rank x \<le> rank c) \<and> (\<forall>p\<in>set ?P. rank p \<le> rank c)
        \<or> length [x \<leftarrow> ?H. rank c < rank x] < length ?H - length ?P)" for c
  proof -
    have "c \<in> set (?B @ ?A) \<longleftrightarrow> c \<in> set ?B \<or> c \<in> set ?A" by simp
    also have "\<dots> \<longleftrightarrow> c \<in> set ?H \<and>
       ((\<forall>x\<in>set ?H. rank x \<le> rank c) \<and> (\<forall>p\<in>set ?P. rank p \<le> rank c)
        \<or> length [x \<leftarrow> ?H. rank c < rank x] < length ?H - length ?P)"
      unfolding B A using top [of c] by blast
    also have "\<dots> \<longleftrightarrow> c \<in> set hand \<and> suit c = s \<and>
       ((\<forall>x\<in>set hand. suit x = s \<longrightarrow> rank x \<le> rank c) \<and> (\<forall>p\<in>set ?P. rank p \<le> rank c)
        \<or> length [x \<leftarrow> ?H. rank c < rank x] < length ?H - length ?P)"
      by auto
    finally show ?thesis .
  qed
  with eq show ?thesis by blast
qed

lemma standing_loop_char:
  fixes hand :: "('s, 'r::linorder) agent_card list"
  assumes "\<forall>s\<in>set ss. [card \<leftarrow> hand. suit card = s] \<noteq> []"
  shows "\<exists>res. standing_loop possible hand ss acc = Inr res \<and>
    (\<forall>c. c \<in> set res \<longleftrightarrow> c \<in> set acc \<or> (\<exists>s\<in>set ss. \<exists>r. standing_of_suit possible hand s = Inr r \<and> c \<in> set r))"
  using assms
proof (induction ss arbitrary: acc)
  case Nil
  show ?case by simp
next
  case (Cons s ss)
  from Cons.prems have "[card \<leftarrow> hand. suit card = s] \<noteq> []" by simp
  from standing_of_suit_char [OF this, of possible]
  obtain r where r: "standing_of_suit possible hand s = Inr r" by blast
  from Cons.prems have "\<forall>s\<in>set ss. [card \<leftarrow> hand. suit card = s] \<noteq> []" by simp
  from Cons.IH [OF this, of "acc @ r"]
  obtain res where res: "standing_loop possible hand ss (acc @ r) = Inr res"
    and mem: "\<forall>c. c \<in> set res \<longleftrightarrow> c \<in> set (acc @ r) \<or>
        (\<exists>s\<in>set ss. \<exists>r. standing_of_suit possible hand s = Inr r \<and> c \<in> set r)"
    by blast
  have "standing_loop possible hand (s # ss) acc = Inr res" using r res by simp
  moreover have "\<forall>c. c \<in> set res \<longleftrightarrow> c \<in> set acc \<or>
      (\<exists>s'\<in>set (s # ss). \<exists>r. standing_of_suit possible hand s' = Inr r \<and> c \<in> set r)"
    using mem r by auto
  ultimately show ?case by blast
qed

lemma standing_cards_trump:
  fixes hand :: "('s, 'r::linorder) agent_card list"
  shows "\<exists>res. standing_cards suits possible hand (Some t) = Inr res \<and> length res \<le> 1 \<and>
     (\<forall>c. c \<in> set res \<longleftrightarrow>
        c \<in> set hand \<and> suit c = t \<and> (\<forall>x\<in>set hand. suit x = t \<longrightarrow> rank x \<le> rank c))"
proof (cases "[card \<leftarrow> hand. suit card = t]")
  case Nil
  then have "standing_cards suits possible hand (Some t) = Inr []"
    by (simp add: standing_cards_def)
  moreover have "\<forall>c. \<not> (c \<in> set hand \<and> suit c = t)"
    using Nil by (auto simp: filter_empty_conv)
  ultimately show ?thesis by auto
next
  case (Cons h hs)
  let ?H = "[card \<leftarrow> hand. suit card = t]"
  let ?hh = "max_rank_loop h hs"
  have eq: "standing_cards suits possible hand (Some t) = Inr [?hh]"
    using Cons by (simp add: standing_cards_def)
  have inj: "inj_on rank (set ?H)" by (rule same_suit_rank_inj)
  have hh_mem: "?hh \<in> set ?H" unfolding Cons by (rule max_rank_loop_mem)
  have hh_ge: "\<forall>x\<in>set ?H. rank x \<le> rank ?hh"
    unfolding Cons by (blast intro: max_rank_loop_ge)
  have "c = ?hh \<longleftrightarrow> c \<in> set ?H \<and> (\<forall>x\<in>set ?H. rank x \<le> rank c)" for c
  proof
    assume "c = ?hh"
    with hh_mem hh_ge show "c \<in> set ?H \<and> (\<forall>x\<in>set ?H. rank x \<le> rank c)" by blast
  next
    assume a: "c \<in> set ?H \<and> (\<forall>x\<in>set ?H. rank x \<le> rank c)"
    then have "rank ?hh \<le> rank c" using hh_mem by blast
    moreover have "rank c \<le> rank ?hh" using hh_ge a by blast
    ultimately have "rank c = rank ?hh" by simp
    with inj a hh_mem show "c = ?hh" by (auto simp: inj_on_def)
  qed
  then have "\<forall>c. c \<in> set [?hh] \<longleftrightarrow>
        c \<in> set hand \<and> suit c = t \<and> (\<forall>x\<in>set hand. suit x = t \<longrightarrow> rank x \<le> rank c)"
    by auto
  with eq show ?thesis by auto
qed

lemma standing_cards_no_trump:
  fixes hand :: "('s, 'r::linorder) agent_card list"
  assumes "iteration_order suits hand"
  shows "\<exists>res. standing_cards suits possible hand None = Inr res \<and>
    (\<forall>c. c \<in> set res \<longleftrightarrow> c \<in> set hand \<and>
       ((\<forall>x\<in>set hand. suit x = suit c \<longrightarrow> rank x \<le> rank c) \<and>
        (\<forall>p\<in>set (dict_get possible (suit c) []). rank p \<le> rank c)
        \<or> length [x \<leftarrow> [card \<leftarrow> hand. suit card = suit c]. rank c < rank x]
           < length [card \<leftarrow> hand. suit card = suit c]
             - length (dict_get possible (suit c) [])))"
proof -
  have suits: "set suits = suit ` set hand"
    using assms by (simp add: iteration_order_def)
  have ne: "\<forall>s\<in>set suits. [card \<leftarrow> hand. suit card = s] \<noteq> []"
    using suits by (auto simp: filter_empty_conv)
  from standing_loop_char [OF ne, of possible "[]"]
  obtain res where res: "standing_loop possible hand suits [] = Inr res"
    and mem: "\<forall>c. c \<in> set res \<longleftrightarrow>
        (\<exists>s\<in>set suits. \<exists>r. standing_of_suit possible hand s = Inr r \<and> c \<in> set r)"
    by auto
  have eq: "standing_cards suits possible hand None = Inr res"
    using res by (simp add: standing_cards_def)
  have "c \<in> set res \<longleftrightarrow> c \<in> set hand \<and>
       ((\<forall>x\<in>set hand. suit x = suit c \<longrightarrow> rank x \<le> rank c) \<and>
        (\<forall>p\<in>set (dict_get possible (suit c) []). rank p \<le> rank c)
        \<or> length [x \<leftarrow> [card \<leftarrow> hand. suit card = suit c]. rank c < rank x]
           < length [card \<leftarrow> hand. suit card = suit c]
             - length (dict_get possible (suit c) []))" (is "_ \<longleftrightarrow> ?R") for c
  proof
    assume "c \<in> set res"
    with mem obtain s r where s: "s \<in> set suits"
      and r: "standing_of_suit possible hand s = Inr r" and c: "c \<in> set r" by blast
    from ne s have "[card \<leftarrow> hand. suit card = s] \<noteq> []" by blast
    from standing_of_suit_char [OF this, of possible] r c
    show ?R by auto
  next
    assume R: ?R
    then have "suit c \<in> set suits" using suits by blast
    moreover from this ne have "[card \<leftarrow> hand. suit card = suit c] \<noteq> []" by blast
    from standing_of_suit_char [OF this, of possible] R
    have "\<exists>r. standing_of_suit possible hand (suit c) = Inr r \<and> c \<in> set r" by auto
    ultimately show "c \<in> set res" using mem by blast
  qed
  with eq show ?thesis by blast
qed

text \<open>
  C8, as the specification states it for a hand without trump: the highest owned card of
  a suit is standing exactly when no possible opponent card of the suit outranks it. With
  Red cards of ranks 1 and 2 in hand and the one possible opponent card Red of rank 9, the
  owned card of rank 2 is outranked and is standing all the same: the hand has one Red
  card more than the opponents can hold, and the highest owned card is the excess card.
\<close>

theorem standing_cards_outranked_counterexample:
  "standing_cards [''r''] [''r'' \<mapsto> [\<lparr>suit = ''r'', rank = 9::nat\<rparr>]]
      [\<lparr>suit = ''r'', rank = 1\<rparr>, \<lparr>suit = ''r'', rank = 2\<rparr>] None
     = Inr [\<lparr>suit = ''r'', rank = 2\<rparr>] \<and>
   rank \<lparr>suit = ''r'', rank = 2::nat\<rparr> < rank \<lparr>suit = ''r'', rank = 9::nat\<rparr>"
  by (simp add: standing_cards_def standing_of_suit_def sorted_rank_reverse_def dict_get_def)

text \<open>
  C8, amended. With a declared trump the result has at most one card: the highest trump
  card of the hand, if the hand holds a trump. With no trump, the highest owned card of a
  suit is standing exactly when no possible opponent card of the suit outranks it or the
  hand holds more cards of the suit than the opponents possibly hold; and the standing
  cards are exactly these highest cards together with the excess highest-ranked owned
  cards: the owned cards that fewer owned cards of their suit outrank than the hand has
  cards of the suit beyond the possible opponent cards.
\<close>

theorem standing_cards_amended:
  fixes hand :: "('s, 'r::linorder) agent_card list"
  assumes "iteration_order suits hand"
  shows "(\<exists>res. standing_cards suits possible hand (Some t) = Inr res \<and> length res \<le> 1 \<and>
            (\<forall>c. c \<in> set res \<longleftrightarrow>
               c \<in> set hand \<and> suit c = t \<and> (\<forall>x\<in>set hand. suit x = t \<longrightarrow> rank x \<le> rank c))) \<and>
         (\<exists>res. standing_cards suits possible hand None = Inr res \<and>
            (\<forall>h\<in>set hand. (\<forall>x\<in>set hand. suit x = suit h \<longrightarrow> rank x \<le> rank h) \<longrightarrow>
               (h \<in> set res \<longleftrightarrow>
                  (\<forall>p\<in>set (dict_get possible (suit h) []). rank p \<le> rank h)
                  \<or> length (dict_get possible (suit h) []) < length [card \<leftarrow> hand. suit card = suit h])) \<and>
            (\<forall>c. c \<in> set res \<longleftrightarrow> c \<in> set hand \<and>
               ((\<forall>x\<in>set hand. suit x = suit c \<longrightarrow> rank x \<le> rank c) \<and>
                (\<forall>p\<in>set (dict_get possible (suit c) []). rank p \<le> rank c)
                \<or> length [x \<leftarrow> [card \<leftarrow> hand. suit card = suit c]. rank c < rank x]
                   < length [card \<leftarrow> hand. suit card = suit c]
                     - length (dict_get possible (suit c) []))))"
proof -
  from standing_cards_no_trump [OF assms, of possible]
  obtain res where eq: "standing_cards suits possible hand None = Inr res"
    and char: "\<And>c. c \<in> set res \<longleftrightarrow> c \<in> set hand \<and>
               ((\<forall>x\<in>set hand. suit x = suit c \<longrightarrow> rank x \<le> rank c) \<and>
                (\<forall>p\<in>set (dict_get possible (suit c) []). rank p \<le> rank c)
                \<or> length [x \<leftarrow> [card \<leftarrow> hand. suit card = suit c]. rank c < rank x]
                   < length [card \<leftarrow> hand. suit card = suit c]
                     - length (dict_get possible (suit c) []))"
    by blast
  have top: "h \<in> set res \<longleftrightarrow>
        (\<forall>p\<in>set (dict_get possible (suit h) []). rank p \<le> rank h)
        \<or> length (dict_get possible (suit h) []) < length [card \<leftarrow> hand. suit card = suit h]"
    if h: "h \<in> set hand" and hi: "\<forall>x\<in>set hand. suit x = suit h \<longrightarrow> rank x \<le> rank h" for h
  proof -
    have "[x \<leftarrow> [card \<leftarrow> hand. suit card = suit h]. rank h < rank x] = []"
      using hi by (fastforce simp: filter_empty_conv)
    then show ?thesis using char [of h] h hi by auto
  qed
  from eq char top have "\<exists>res. standing_cards suits possible hand None = Inr res \<and>
            (\<forall>h\<in>set hand. (\<forall>x\<in>set hand. suit x = suit h \<longrightarrow> rank x \<le> rank h) \<longrightarrow>
               (h \<in> set res \<longleftrightarrow>
                  (\<forall>p\<in>set (dict_get possible (suit h) []). rank p \<le> rank h)
                  \<or> length (dict_get possible (suit h) []) < length [card \<leftarrow> hand. suit card = suit h])) \<and>
            (\<forall>c. c \<in> set res \<longleftrightarrow> c \<in> set hand \<and>
               ((\<forall>x\<in>set hand. suit x = suit c \<longrightarrow> rank x \<le> rank c) \<and>
                (\<forall>p\<in>set (dict_get possible (suit c) []). rank p \<le> rank c)
                \<or> length [x \<leftarrow> [card \<leftarrow> hand. suit card = suit c]. rank c < rank x]
                   < length [card \<leftarrow> hand. suit card = suit c]
                     - length (dict_get possible (suit c) [])))"
    by blast
  with standing_cards_trump [of suits possible hand t] show ?thesis by blast
qed

theorem standing_cards_amended_witness:
  "iteration_order [''r'', ''g'']
     [\<lparr>suit = ''r'', rank = 1::nat\<rparr>, \<lparr>suit = ''r'', rank = 2\<rparr>, \<lparr>suit = ''g'', rank = 5\<rparr>] \<and>
   standing_cards [''r'', ''g''] [''r'' \<mapsto> [\<lparr>suit = ''r'', rank = 9::nat\<rparr>]]
     [\<lparr>suit = ''r'', rank = 1\<rparr>, \<lparr>suit = ''r'', rank = 2\<rparr>, \<lparr>suit = ''g'', rank = 5\<rparr>] (Some ''r'')
     = Inr [\<lparr>suit = ''r'', rank = 2\<rparr>] \<and>
   standing_cards [''r'', ''g''] [''r'' \<mapsto> [\<lparr>suit = ''r'', rank = 9::nat\<rparr>]]
     [\<lparr>suit = ''r'', rank = 1\<rparr>, \<lparr>suit = ''r'', rank = 2\<rparr>, \<lparr>suit = ''g'', rank = 5\<rparr>] None
     = Inr [\<lparr>suit = ''r'', rank = 2\<rparr>, \<lparr>suit = ''g'', rank = 5\<rparr>]"
proof -
  have h: "iteration_order [''r'', ''g'']
     [\<lparr>suit = ''r'', rank = 1::nat\<rparr>, \<lparr>suit = ''r'', rank = 2\<rparr>, \<lparr>suit = ''g'', rank = 5\<rparr>]"
    by (simp add: iteration_order_def)
  have a: "standing_cards [''r'', ''g''] [''r'' \<mapsto> [\<lparr>suit = ''r'', rank = 9::nat\<rparr>]]
     [\<lparr>suit = ''r'', rank = 1\<rparr>, \<lparr>suit = ''r'', rank = 2\<rparr>, \<lparr>suit = ''g'', rank = 5\<rparr>] (Some ''r'')
     = Inr [\<lparr>suit = ''r'', rank = 2\<rparr>]"
    by (simp add: standing_cards_def)
  have b: "standing_cards [''r'', ''g''] [''r'' \<mapsto> [\<lparr>suit = ''r'', rank = 9::nat\<rparr>]]
     [\<lparr>suit = ''r'', rank = 1\<rparr>, \<lparr>suit = ''r'', rank = 2\<rparr>, \<lparr>suit = ''g'', rank = 5\<rparr>] None
     = Inr [\<lparr>suit = ''r'', rank = 2\<rparr>, \<lparr>suit = ''g'', rank = 5\<rparr>]"
    by (simp add: standing_cards_def standing_of_suit_def sorted_rank_reverse_def dict_get_def)
  show ?thesis
    using standing_cards_amended [OF h, of "[''r'' \<mapsto> [\<lparr>suit = ''r'', rank = 9::nat\<rparr>]]" "''r''"] h a b
    by (intro conjI) assumption+
qed

end
